theory Spec2Isabelle
  imports Complex_Main "HOL-Library.AList"
begin

section \<open>Transport objects and the values that cross them\<close>

text \<open>
  The server keeps one object per WebSocket connection. The fields the code reads are
  \<open>connection.socket\<close> (the ws socket), \<open>connection.user\<close> (set by the authenticator)
  and \<open>connection.subscriptions\<close> (set by the protocol handler). The socket itself belongs
  to the ws library: the model keeps its \<open>readyState\<close> (0 CONNECTING, 1 OPEN, 2 CLOSING,
  3 CLOSED) and, as data of the environment, whether its next \<open>send\<close>, \<open>close\<close> and
  \<open>ping\<close> raise. \<open>afterRaise\<close> lists how \<open>send\<close> and \<open>close\<close> behave once a call on the
  socket has raised, then after the next raise, and so on; when the list is empty the
  socket goes on as before. It is read where one run of a function calls the same socket
  again after a raise (the authenticator and the message listener).
  What the log receives is not part of the model; an error raised while a log line is
  built is.
\<close>

datatype error =
  SendError | CloseError | PingError | VerifyError | StoreError | TypeError | SyntaxError

text \<open>
  Values as \<open>JSON.parse\<close> and \<open>JSON.stringify\<close> see them. \<open>JObj\<close> lists the properties of
  an object, each key once.
\<close>

datatype json =
    JNull
  | JBool bool
  | JNum int
  | JStr string
  | JArr "json list"
  | JObj "(string \<times> json) list"

text \<open>
  \<open>broadcast\<close> and \<open>broadcastFiltered\<close> take either a string, sent as it is, or any
  other value, sent as \<open>JSON.stringify(message)\<close>. A frame is what reaches
  \<open>socket.send\<close>.
\<close>

datatype message = MsgString string | MsgValue json

datatype frame = Raw string | Stringified json

definition serialize :: "message \<Rightarrow> frame" where
  "serialize m = (case m of MsgString s \<Rightarrow> Raw s | MsgValue j \<Rightarrow> Stringified j)"

record socket =
  readyState :: nat
  sendThrows :: bool
  closeThrows :: bool
  pingThrows :: bool
  afterRaise :: "(bool \<times> bool) list"

record user =
  id_user :: string
  email :: string
  name :: "string option"

record connection =
  socket :: socket
  user :: "user option"
  subscriptions :: "(string \<times> bool) list option"

type_synonym conn_id = string

datatype sock_event =
    Sent frame
  | SendRaised frame
  | Pinged
  | PingRaised
  | Closed nat string
  | CloseRaised nat string

definition socket_send :: "socket \<Rightarrow> frame \<Rightarrow> error + unit" where
  "socket_send s d = (if sendThrows s then Inl SendError else Inr ())"

definition socket_close :: "socket \<Rightarrow> nat \<Rightarrow> string \<Rightarrow> error + unit" where
  "socket_close s code reason = (if closeThrows s then Inl CloseError else Inr ())"

definition socket_ping :: "socket \<Rightarrow> error + unit" where
  "socket_ping s = (if pingThrows s then Inl PingError else Inr ())"

text \<open>The socket after a call on it has raised.\<close>

definition raised :: "socket \<Rightarrow> socket" where
  "raised s =
     (case afterRaise s of
        [] \<Rightarrow> s
      | (st, ct) # later \<Rightarrow> s\<lparr>sendThrows := st, closeThrows := ct, afterRaise := later\<rparr>)"

section \<open>Connection registry (plugins/websocket.js)\<close>

text \<open>
  \<open>activeConnections\<close> is a JavaScript \<open>Map\<close>: keys are unique, iteration follows
  insertion order, \<open>set\<close> on a present key replaces the value in place and on an absent key
  appends, \<open>delete\<close> reports whether the key was present. An association list with
  distinct keys has the same behaviour under \<open>AList.update\<close> and \<open>AList.delete\<close>.
\<close>

type_synonym registry = "(conn_id \<times> connection) list"

definition registry_ok :: "registry \<Rightarrow> bool" where
  "registry_ok reg = distinct (map fst reg)"

definition addConnection :: "conn_id \<Rightarrow> connection \<Rightarrow> registry \<Rightarrow> registry" where
  "addConnection i c reg = AList.update i c reg"

definition removeConnection :: "conn_id \<Rightarrow> registry \<Rightarrow> bool \<times> registry" where
  "removeConnection i reg = (map_of reg i \<noteq> None, AList.delete i reg)"

definition getConnection :: "conn_id \<Rightarrow> registry \<Rightarrow> connection option" where
  "getConnection i reg = map_of reg i"

definition getAllConnections :: "registry \<Rightarrow> connection list" where
  "getAllConnections reg = map snd reg"

definition getConnectionsCount :: "registry \<Rightarrow> nat" where
  "getConnectionsCount reg = length reg"

section \<open>Fan-out\<close>

text \<open>
  The body of \<open>activeConnections.forEach\<close> in \<open>broadcastFiltered\<close>. Nothing catches an
  error of \<open>socket.send\<close>: it leaves the callback, \<open>forEach\<close> and the function. The first
  component lists, in order, what was done to which socket.
\<close>

fun broadcastFiltered_forEach ::
  "frame \<Rightarrow> (connection \<Rightarrow> conn_id \<Rightarrow> bool) \<Rightarrow> registry \<Rightarrow> nat
    \<Rightarrow> (conn_id \<times> sock_event) list \<times> (error + nat)" where
  "broadcastFiltered_forEach serializedMessage filterFn [] sentCount = ([], Inr sentCount)"
| "broadcastFiltered_forEach serializedMessage filterFn ((i, c) # rest) sentCount =
     (if filterFn c i \<and> readyState (socket c) = 1 then
        (case socket_send (socket c) serializedMessage of
           Inl e \<Rightarrow> ([(i, SendRaised serializedMessage)], Inl e)
         | Inr _ \<Rightarrow>
             (case broadcastFiltered_forEach serializedMessage filterFn rest (sentCount + 1) of
                (evs, r) \<Rightarrow> ((i, Sent serializedMessage) # evs, r)))
      else broadcastFiltered_forEach serializedMessage filterFn rest sentCount)"

definition broadcastFiltered ::
  "message \<Rightarrow> (connection \<Rightarrow> conn_id \<Rightarrow> bool) \<Rightarrow> registry
    \<Rightarrow> (conn_id \<times> sock_event) list \<times> (error + nat)" where
  "broadcastFiltered m filterFn reg = broadcastFiltered_forEach (serialize m) filterFn reg 0"

text \<open>
  The filter the task controller passes on every task mutation:
  \<open>(connection) => connection.user && connection.user.id === userId\<close>.
\<close>

definition taskFilter :: "string \<Rightarrow> connection \<Rightarrow> conn_id \<Rightarrow> bool" where
  "taskFilter userId c i = (case user c of None \<Rightarrow> False | Some u \<Rightarrow> id_user u = userId)"

text \<open>
  Names for the two tests the loop makes on an entry: it passes the filter and its socket is
  OPEN; its \<open>send\<close> returns.
\<close>

definition eligible :: "(connection \<Rightarrow> conn_id \<Rightarrow> bool) \<Rightarrow> conn_id \<times> connection \<Rightarrow> bool" where
  "eligible filterFn p = (filterFn (snd p) (fst p) \<and> readyState (socket (snd p)) = 1)"

definition send_returns :: "conn_id \<times> connection \<Rightarrow> bool" where
  "send_returns p = (\<not> sendThrows (socket (snd p)))"

definition taskCreatedMessage :: "json \<Rightarrow> message" where
  "taskCreatedMessage task = MsgValue (JObj [(''type'', JStr ''TASK_CREATED''), (''task'', task)])"

definition taskUpdatedMessage :: "json \<Rightarrow> message" where
  "taskUpdatedMessage task = MsgValue (JObj [(''type'', JStr ''TASK_UPDATED''), (''task'', task)])"

definition taskDeletedMessage :: "string \<Rightarrow> message" where
  "taskDeletedMessage taskId =
     MsgValue (JObj [(''type'', JStr ''TASK_DELETED''), (''taskId'', JStr taskId)])"

text \<open>
  \<open>broadcast\<close>, the unfiltered sibling, has the same loop with the exclusion test
  \<open>excludeId && id === excludeId\<close> in place of the filter (an empty string is falsy).
\<close>

definition not_excluded :: "conn_id option \<Rightarrow> connection \<Rightarrow> conn_id \<Rightarrow> bool" where
  "not_excluded excludeId c i =
     (\<not> (case excludeId of None \<Rightarrow> False | Some x \<Rightarrow> x \<noteq> [] \<and> i = x))"

definition broadcast ::
  "message \<Rightarrow> conn_id option \<Rightarrow> registry \<Rightarrow> (conn_id \<times> sock_event) list \<times> (error + nat)" where
  "broadcast m excludeId reg =
     broadcastFiltered_forEach (serialize m) (not_excluded excludeId) reg 0"

section \<open>Liveness monitor and shutdown\<close>

text \<open>
  The callback of \<open>setInterval\<close>. \<open>Map.forEach\<close> walks the live map; the callback deletes
  at most the entry it is visiting, so the entries still to visit are the rest of the list.
  Nothing catches an error of \<open>socket.ping()\<close>: it leaves the callback and \<open>forEach\<close>,
  and the entries not yet visited are neither probed nor removed in that tick.
\<close>

fun pingInterval_forEach ::
  "(conn_id \<times> connection) list \<Rightarrow> registry
    \<Rightarrow> (conn_id \<times> sock_event) list \<times> registry \<times> (error + unit)" where
  "pingInterval_forEach [] reg = ([], reg, Inr ())"
| "pingInterval_forEach ((i, c) # rest) reg =
     (if readyState (socket c) = 1 then
        (case socket_ping (socket c) of
           Inl e \<Rightarrow> ([(i, PingRaised)], reg, Inl e)
         | Inr _ \<Rightarrow>
             (case pingInterval_forEach rest reg of
                (evs, reg', r) \<Rightarrow> ((i, Pinged) # evs, reg', r)))
      else if readyState (socket c) \<ge> 2 then
        pingInterval_forEach rest (snd (removeConnection i reg))
      else pingInterval_forEach rest reg)"

definition pingInterval ::
  "registry \<Rightarrow> (conn_id \<times> sock_event) list \<times> registry \<times> (error + unit)" where
  "pingInterval reg = pingInterval_forEach reg reg"

record server =
  activeConnections :: registry
  pingTimer :: bool

text \<open>
  The \<open>onClose\<close> hook: \<open>clearInterval\<close>, then a \<open>close(1000, 'Server shutting down')\<close> on
  every registered socket inside \<open>try\<close>/\<open>catch\<close> with an empty handler, then
  \<open>activeConnections.clear()\<close>.
\<close>

fun onClose_forEach :: "registry \<Rightarrow> (conn_id \<times> sock_event) list" where
  "onClose_forEach [] = []"
| "onClose_forEach ((i, c) # rest) =
     (case socket_close (socket c) 1000 ''Server shutting down'' of
        Inl err \<Rightarrow> (i, CloseRaised 1000 ''Server shutting down'') # onClose_forEach rest
      | Inr _ \<Rightarrow> (i, Closed 1000 ''Server shutting down'') # onClose_forEach rest)"

definition onClose :: "server \<Rightarrow> (conn_id \<times> sock_event) list \<times> server" where
  "onClose s =
     (let s1 = s\<lparr>pingTimer := False\<rparr>;
          evs = onClose_forEach (activeConnections s1)
      in (evs, s1\<lparr>activeConnections := []\<rparr>))"

section \<open>Authenticator (controllers/auth-middleware, authenticateWebSocket)\<close>







section \<open>Route /updates (routes/websocket/index.js)\<close>

text \<open>
  Template strings render \<open>Date.now()\<close> and a close code in decimal.
\<close>

definition digit :: "nat \<Rightarrow> char" where
  "digit d = ''0123456789'' ! d"

fun decimal :: "nat \<Rightarrow> string" where
  "decimal n = (if n < 10 then [digit n] else decimal (n div 10) @ [digit (n mod 10)])"

declare decimal.simps [simp del]

definition connectionId :: "string \<Rightarrow> nat \<Rightarrow> conn_id" where
  "connectionId userId now = ''user:'' @ userId @ '':'' @ decimal now"

text \<open>
  Outbound frames of the route. \<open>ts\<close> is the string \<open>new Date().toISOString()\<close> read
  when the frame is built.
\<close>

definition connectedFrame :: "string \<Rightarrow> string \<Rightarrow> json" where
  "connectedFrame userId ts =
     JObj [(''type'', JStr ''CONNECTED''), (''userId'', JStr userId), (''timestamp'', JStr ts)]"

definition pongFrame :: "string \<Rightarrow> json" where
  "pongFrame ts = JObj [(''type'', JStr ''PONG''), (''timestamp'', JStr ts)]"

definition subscribedFrame :: "string \<Rightarrow> json" where
  "subscribedFrame ts =
     JObj [(''type'', JStr ''SUBSCRIBED''), (''channel'', JStr ''tasks''), (''timestamp'', JStr ts)]"

definition unsubscribedFrame :: "string \<Rightarrow> json" where
  "unsubscribedFrame ts =
     JObj [(''type'', JStr ''UNSUBSCRIBED''), (''channel'', JStr ''tasks''), (''timestamp'', JStr ts)]"

definition errorFrame :: "string \<Rightarrow> string \<Rightarrow> json" where
  "errorFrame msg ts =
     JObj [(''type'', JStr ''ERROR''), (''error'', JStr msg), (''timestamp'', JStr ts)]"

definition reply :: "connection \<Rightarrow> json \<Rightarrow> sock_event list \<times> (error + unit)" where
  "reply c j =
     (case socket_send (socket c) (Stringified j) of
        Inl e \<Rightarrow> ([SendRaised (Stringified j)], Inl e)
      | Inr _ \<Rightarrow> ([Sent (Stringified j)], Inr ()))"

text \<open>
  Admission, after the authenticator returned true: the id, \<open>addConnection\<close>, then the
  CONNECTED frame. The listeners for \<open>message\<close> and \<open>close\<close> are installed after the send.
\<close>

definition admit ::
  "connection \<Rightarrow> nat \<Rightarrow> string \<Rightarrow> registry
    \<Rightarrow> sock_event list \<times> registry \<times> (error + conn_id)" where
  "admit c now ts reg =
     (case user c of
        None \<Rightarrow> ([], reg, Inl TypeError)
      | Some u \<Rightarrow>
          (let userId = id_user u;
               cid = connectionId userId now;
               reg' = addConnection cid c reg
           in (case reply c (connectedFrame userId ts) of
                 (evs, Inl e) \<Rightarrow> (evs, reg', Inl e)
               | (evs, Inr _) \<Rightarrow> (evs, reg', Inr cid))))"

text \<open>
  The listeners are installed after the CONNECTED frame has been sent: when admission ends
  with an id, the \<open>close\<close> listener of the socket is bound to that id; when an error
  leaves the handler before, the socket has no listener. A \<open>close\<close> event of the socket
  runs the listener it has.
\<close>

definition closeListener :: "error + conn_id \<Rightarrow> conn_id option" where
  "closeListener r = (case r of Inl e \<Rightarrow> None | Inr cid \<Rightarrow> Some cid)"

text \<open>
  The \<open>message\<close> listener. \<open>JSON.parse\<close> either raises or gives a value; \<open>data.type\<close>
  raises on null, is the property on an object and undefined on every other value.
\<close>

datatype inbound = Unparseable | Parsed json

definition data_type :: "json \<Rightarrow> error + json option" where
  "data_type d =
     (case d of JNull \<Rightarrow> Inl TypeError | JObj fs \<Rightarrow> Inr (map_of fs ''type'') | _ \<Rightarrow> Inr None)"

text \<open>
  The first statement after the parse builds a log line with \<open>${data.type}\<close>. Converting a
  parsed value to a string raises exactly when it is an object with a property of its own
  named \<open>toString\<close> (no parsed value is callable, and the inherited \<open>valueOf\<close> returns the
  object), or an array that holds such a value: an array is joined from the strings of its
  elements.
\<close>

fun stringifies :: "json \<Rightarrow> bool" where
  "stringifies (JObj fs) = (map_of fs ''toString'' = None)"
| "stringifies (JArr xs) = list_all stringifies xs"
| "stringifies JNull = True"
| "stringifies (JBool b) = True"
| "stringifies (JNum n) = True"
| "stringifies (JStr s) = True"

text \<open>One \<open>connection.socket.send(JSON.stringify(j))\<close> on a socket behaving as \<open>s\<close>.\<close>

definition send_on :: "socket \<Rightarrow> json \<Rightarrow> sock_event list \<times> socket \<times> (error + unit)" where
  "send_on s j =
     (case socket_send s (Stringified j) of
        Inl e \<Rightarrow> ([SendRaised (Stringified j)], raised s, Inl e)
      | Inr _ \<Rightarrow> ([Sent (Stringified j)], s, Inr ()))"

text \<open>
  The \<open>try\<close> block of the listener. The third component is the behaviour of the
  connection's socket when the block is left.
\<close>

definition onMessage_try ::
  "connection \<Rightarrow> inbound \<Rightarrow> string
    \<Rightarrow> sock_event list \<times> connection \<times> socket \<times> (error + unit)" where
  "onMessage_try c raw ts =
     (case raw of
        Unparseable \<Rightarrow> ([], c, socket c, Inl SyntaxError)
      | Parsed d \<Rightarrow>
          (case data_type d of
             Inl e \<Rightarrow> ([], c, socket c, Inl e)
           | Inr t \<Rightarrow>
               if \<not> (case t of None \<Rightarrow> True | Some v \<Rightarrow> stringifies v) then
                 ([], c, socket c, Inl TypeError)
               else if t = Some (JStr ''PING'') then
                 (case send_on (socket c) (pongFrame ts) of (evs, s', r) \<Rightarrow> (evs, c, s', r))
               else if t = Some (JStr ''SUBSCRIBE_TASKS'') then
                 (let subs = (case subscriptions c of None \<Rightarrow> [] | Some s \<Rightarrow> s);
                      c' = c\<lparr>subscriptions := Some (AList.update ''tasks'' True subs)\<rparr>
                  in (case send_on (socket c') (subscribedFrame ts) of
                        (evs, s', r) \<Rightarrow> (evs, c', s', r)))
               else if t = Some (JStr ''UNSUBSCRIBE_TASKS'') then
                 (let c' = (case subscriptions c of
                              None \<Rightarrow> c
                            | Some s \<Rightarrow> c\<lparr>subscriptions := Some (AList.update ''tasks'' False s)\<rparr>)
                  in (case send_on (socket c') (unsubscribedFrame ts) of
                        (evs, s', r) \<Rightarrow> (evs, c', s', r)))
               else
                 (case send_on (socket c) (errorFrame ''Unknown message type'' ts) of
                    (evs, s', r) \<Rightarrow> (evs, c, s', r))))"

text \<open>
  The \<open>catch\<close> of the listener answers any error of the block, also one raised by a
  \<open>send\<close>; its clock reading is \<open>ts'\<close>.
\<close>

definition onMessage ::
  "connection \<Rightarrow> inbound \<Rightarrow> string \<Rightarrow> string
    \<Rightarrow> sock_event list \<times> connection \<times> (error + unit)" where
  "onMessage c raw ts ts' =
     (case onMessage_try c raw ts of
        (evs, c', s', Inl err) \<Rightarrow>
          (case send_on s' (errorFrame ''Invalid message format'' ts') of
             (evs2, s2, r) \<Rightarrow> (evs @ evs2, c', r))
      | (evs, c', s', Inr u) \<Rightarrow> (evs, c', Inr u))"

text \<open>The flag a reader of \<open>connection.subscriptions.tasks\<close> sees; absent counts as false.\<close>

definition tasksFlag :: "connection \<Rightarrow> bool" where
  "tasksFlag c =
     (case subscriptions c of
        None \<Rightarrow> False
      | Some s \<Rightarrow> (case map_of s ''tasks'' of None \<Rightarrow> False | Some b \<Rightarrow> b))"

text \<open>The \<open>close\<close> listener of the socket admitted under \<open>connectionId\<close>.\<close>

definition onSocketClose :: "conn_id \<Rightarrow> registry \<Rightarrow> registry" where
  "onSocketClose cid reg = snd (removeConnection cid reg)"

definition socketCloseEvent :: "conn_id option \<Rightarrow> registry \<Rightarrow> registry" where
  "socketCloseEvent listener reg =
     (case listener of None \<Rightarrow> reg | Some cid \<Rightarrow> onSocketClose cid reg)"

definition frame_field :: "frame \<Rightarrow> string \<Rightarrow> json option" where
  "frame_field f k = (case f of Stringified (JObj fs) \<Rightarrow> map_of fs k | _ \<Rightarrow> None)"

text \<open>An event is stamped when it is a send (returned or raised) of a frame whose
  \<open>timestamp\<close> field is the given clock string.\<close>

definition stamped :: "string \<Rightarrow> sock_event \<Rightarrow> bool" where
  "stamped ts e = (\<exists>f. (e = Sent f \<or> e = SendRaised f)
      \<and> frame_field f ''timestamp'' = Some (JStr ts))"

section \<open>Client reconnect policy (frontend/src/websocket.js)\<close>

text \<open>
  The state \<open>createWebSocketClient\<close> keeps between callbacks, the events it triggers, and
  the timers it has started (\<open>reconnectTimeoutId\<close> is the last one). Delays are
  \<open>1000 * 1.5^n\<close> capped at 30000; for the exponents the guard lets through these are
  exact binary fractions, so the model computes them in the reals.
\<close>

datatype client_event =
    EvAuthError nat string
  | EvDisconnected nat string
  | EvReconnecting nat real
  | EvMaxReconnectAttemptsReached nat
  | EvConnected

record client =
  isConnected :: bool
  isConnecting :: bool
  connectionError :: "string option"
  reconnectAttempts :: nat
  reconnectTimeoutId :: "real option"
  timers :: "real list"
  triggered :: "client_event list"

definition maxReconnectAttempts :: nat where
  "maxReconnectAttempts = 10"

definition getReconnectDelay :: "client \<Rightarrow> real" where
  "getReconnectDelay st = min (1000 * (3 / 2) ^ reconnectAttempts st) 30000"

definition triggerEvent :: "client_event \<Rightarrow> client \<Rightarrow> client" where
  "triggerEvent e st = st\<lparr>triggered := triggered st @ [e]\<rparr>"

definition scheduleReconnect :: "client \<Rightarrow> client" where
  "scheduleReconnect st =
     (if reconnectAttempts st \<ge> maxReconnectAttempts then
        triggerEvent (EvMaxReconnectAttemptsReached (reconnectAttempts st))
          (st\<lparr>connectionError := Some ''Maximum reconnection attempts reached''\<rparr>)
      else
        (let st1 = st\<lparr>reconnectAttempts := reconnectAttempts st + 1\<rparr>;
             delay = getReconnectDelay st1;
             st2 = triggerEvent (EvReconnecting (reconnectAttempts st1) delay) st1
         in st2\<lparr>reconnectTimeoutId := Some delay, timers := timers st2 @ [delay]\<rparr>))"

definition handleClose :: "nat \<Rightarrow> string \<Rightarrow> client \<Rightarrow> client" where
  "handleClose code reason st =
     (let st1 = st\<lparr>isConnected := False, isConnecting := False\<rparr>;
          st2 =
            (if code = 1008 then
               triggerEvent (EvAuthError code reason)
                 (st1\<lparr>connectionError := Some ''Authentication failed. Please log in again.''\<rparr>)
             else
               scheduleReconnect
                 (st1\<lparr>connectionError :=
                    Some (''Connection closed ('' @ decimal code @ ''): '' @ reason)\<rparr>))
      in triggerEvent (EvDisconnected code reason) st2)"

definition handleOpen :: "client \<Rightarrow> client" where
  "handleOpen st =
     triggerEvent EvConnected
       (st\<lparr>isConnected := True, isConnecting := False, connectionError := None,
           reconnectAttempts := 0\<rparr>)"

text \<open>\<open>k\<close> closes in a row, none of them followed by a successful open.\<close>

fun closes :: "(nat \<times> string) list \<Rightarrow> client \<Rightarrow> client" where
  "closes [] st = st"
| "closes ((code, reason) # rest) st = closes rest (handleClose code reason st)"

section \<open>Sample objects\<close>

text \<open>Concrete sockets, users and registries on which the theorems below are run.\<close>

definition sample_socket :: "nat \<Rightarrow> bool \<Rightarrow> socket" where
  "sample_socket st thr =
     \<lparr>readyState = st, sendThrows = thr, closeThrows = thr, pingThrows = thr, afterRaise = []\<rparr>"

definition sample_user :: "string \<Rightarrow> user" where
  "sample_user u = \<lparr>id_user = u, email = u @ ''@example.org'', name = None\<rparr>"

definition sample_connection :: "string \<Rightarrow> nat \<Rightarrow> bool \<Rightarrow> connection" where
  "sample_connection u st thr =
     \<lparr>socket = sample_socket st thr, user = Some (sample_user u), subscriptions = None\<rparr>"

definition sample_registry :: registry where
  "sample_registry =
     [(''user:A:1'', sample_connection ''A'' 1 False),
      (''user:B:2'', sample_connection ''B'' 1 False),
      (''user:A:3'', sample_connection ''A'' 1 False),
      (''user:B:4'', sample_connection ''B'' 1 False),
      (''user:A:5'', sample_connection ''A'' 1 False),
      (''user:A:6'', sample_connection ''A'' 3 False)]"

definition failing_registry :: registry where
  "failing_registry =
     [(''user:A:1'', sample_connection ''A'' 1 True),
      (''user:A:3'', sample_connection ''A'' 1 False)]"




text \<open>A second connection of user \<open>A\<close>, on another socket.\<close>

definition second_connection :: connection where
  "second_connection =
     \<lparr>socket = \<lparr>readyState = 1, sendThrows = False, closeThrows = True, pingThrows = False,
                afterRaise = []\<rparr>,
      user = Some (sample_user ''A''), subscriptions = None\<rparr>"

text \<open>The client as \<open>createWebSocketClient\<close> leaves it.\<close>

definition initial_client :: client where
  "initial_client =
     \<lparr>isConnected = False, isConnecting = False, connectionError = None,
      reconnectAttempts = 0, reconnectTimeoutId = None, timers = [], triggered = []\<rparr>"

text \<open>
  A connection of user \<open>A\<close> on a socket whose next \<open>send\<close> and \<open>close\<close> raise and whose
  later calls return, and the same before the authenticator has run.
\<close>

definition recovering_socket :: socket where
  "recovering_socket =
     \<lparr>readyState = 1, sendThrows = True, closeThrows = True, pingThrows = False,
      afterRaise = [(False, False)]\<rparr>"

definition recovering_connection :: connection where
  "recovering_connection =
     \<lparr>socket = recovering_socket, user = Some (sample_user ''A''), subscriptions = None\<rparr>"


text \<open>
  Registries for the fan-out and the tick: in the first the \<open>send\<close> of the second
  connection of user \<open>A\<close> raises; in the second the \<open>ping\<close> of the first entry raises and
  the socket of the last entry is CLOSED.
\<close>

definition partly_failing_registry :: registry where
  "partly_failing_registry =
     [(''user:A:1'', sample_connection ''A'' 1 False),
      (''user:A:3'', sample_connection ''A'' 1 True),
      (''user:B:4'', sample_connection ''B'' 1 False),
      (''user:A:5'', sample_connection ''A'' 1 False)]"

definition ping_failing_registry :: registry where
  "ping_failing_registry =
     [(''user:A:1'', sample_connection ''A'' 1 True),
      (''user:A:6'', sample_connection ''A'' 3 False)]"

section \<open>Registry: removal\<close>

lemma map_of_None_delete: "map_of reg i = None \<Longrightarrow> AList.delete i reg = reg"
  by (induction reg) (auto split: if_splits)

lemma length_delete_present:
  "distinct (map fst reg) \<Longrightarrow> map_of reg i \<noteq> None
    \<Longrightarrow> Suc (length (AList.delete i reg)) = length reg"
proof (induction reg)
  case Nil
  then show ?case by simp
next
  case (Cons p reg)
  show ?case
  proof (cases "fst p = i")
    case True
    with Cons.prems have "map_of reg i = None"
      by (cases p) (auto simp: map_of_eq_None_iff)
    then have "AList.delete i reg = reg" by (rule map_of_None_delete)
    with True show ?thesis by (cases p) simp
  next
    case False
    with Cons show ?thesis by (cases p) auto
  qed
qed

text \<open>
  C7. Removing an id that is not registered returns false and leaves the registry, and so
  its size, as it was; removing a registered id returns true, and the size goes down by
  exactly one.
\<close>

theorem removeConnection_absent_present:
  assumes "registry_ok reg"
  shows "(getConnection i reg = None \<longrightarrow>
            removeConnection i reg = (False, reg)
          \<and> getConnectionsCount (snd (removeConnection i reg)) = getConnectionsCount reg)
       \<and> (getConnection i reg \<noteq> None \<longrightarrow>
            fst (removeConnection i reg) = True
          \<and> getConnectionsCount (snd (removeConnection i reg)) + 1 = getConnectionsCount reg
          \<and> getConnection i (snd (removeConnection i reg)) = None)"
proof -
  have absent: "removeConnection i reg = (False, reg)" if "getConnection i reg = None"
    using that by (simp add: removeConnection_def getConnection_def map_of_None_delete)
  have present: "getConnectionsCount (snd (removeConnection i reg)) + 1 = getConnectionsCount reg"
    if "getConnection i reg \<noteq> None"
    using that assms length_delete_present [of reg i]
    by (simp add: removeConnection_def getConnection_def getConnectionsCount_def registry_ok_def)
  have gone: "getConnection i (snd (removeConnection i reg)) = None"
    by (simp add: removeConnection_def getConnection_def delete_conv')
  show ?thesis
    using absent present gone by (auto simp: removeConnection_def getConnection_def)
qed

theorem removeConnection_absent_present_witness:
  "registry_ok sample_registry
   \<and> removeConnection ''user:C:9'' sample_registry = (False, sample_registry)
   \<and> fst (removeConnection ''user:B:2'' sample_registry) = True
   \<and> getConnectionsCount (snd (removeConnection ''user:B:2'' sample_registry)) + 1 = 6"
proof -
  have ok: "registry_ok sample_registry"
    by (simp add: registry_ok_def sample_registry_def)
  have absent: "getConnection ''user:C:9'' sample_registry = None"
    by (simp add: getConnection_def sample_registry_def)
  have present: "getConnection ''user:B:2'' sample_registry \<noteq> None"
    by (simp add: getConnection_def sample_registry_def)
  have n: "getConnectionsCount sample_registry = 6"
    by (simp add: getConnectionsCount_def sample_registry_def)
  show ?thesis
    using removeConnection_absent_present [OF ok, of "''user:C:9''"]
      removeConnection_absent_present [OF ok, of "''user:B:2''"] ok absent present n
    by simp
qed

section \<open>Fan-out: who receives a task event\<close>

text \<open>
  What one run of the loop does, for any filter: the eligible entries are taken in registry
  order; those before the first whose \<open>send\<close> raises are written to; the raising one is
  the last socket touched; the count is returned only when no \<open>send\<close> raised.
\<close>

lemma broadcastFiltered_forEach_char:
  "broadcastFiltered_forEach fr f reg n =
     (map (\<lambda>p. (fst p, Sent fr)) (takeWhile send_returns (filter (eligible f) reg))
        @ (case dropWhile send_returns (filter (eligible f) reg) of
             [] \<Rightarrow> [] | p # _ \<Rightarrow> [(fst p, SendRaised fr)]),
      if list_all send_returns (filter (eligible f) reg)
      then Inr (n + length (filter (eligible f) reg)) else Inl SendError)"
proof (induction reg arbitrary: n)
  case Nil
  then show ?case by simp
next
  case (Cons p reg)
  obtain i c where p: "p = (i, c)" by (cases p)
  show ?case
  proof (cases "eligible f (i, c)")
    case False
    then have "\<not> (f c i \<and> readyState (socket c) = 1)" by (simp add: eligible_def)
    then have "broadcastFiltered_forEach fr f (p # reg) n = broadcastFiltered_forEach fr f reg n"
      unfolding p by auto
    with False show ?thesis unfolding p by (simp add: Cons.IH)
  next
    case True
    then have el: "f c i \<and> readyState (socket c) = 1" by (simp add: eligible_def)
    show ?thesis
    proof (cases "send_returns (i, c)")
      case False
      then have "sendThrows (socket c)" by (simp add: send_returns_def)
      with el have "broadcastFiltered_forEach fr f (p # reg) n = ([(i, SendRaised fr)], Inl SendError)"
        unfolding p by (simp add: socket_send_def)
      with True False show ?thesis unfolding p by simp
    next
      case nothrow: True
      then have "\<not> sendThrows (socket c)" by (simp add: send_returns_def)
      with el have "broadcastFiltered_forEach fr f (p # reg) n =
          (case broadcastFiltered_forEach fr f reg (n + 1) of
             (evs, r) \<Rightarrow> ((i, Sent fr) # evs, r))"
        unfolding p by (simp add: socket_send_def)
      with True nothrow show ?thesis
        unfolding p by (simp add: Cons.IH)
    qed
  qed
qed

lemma eligible_taskFilter:
  "eligible (taskFilter A) p =
     (map_option id_user (user (snd p)) = Some A \<and> readyState (socket (snd p)) = 1)"
  by (auto simp: eligible_def taskFilter_def split: option.splits)

lemma taskFilter_subscriptions [simp]:
  "taskFilter A (c\<lparr>subscriptions := x\<rparr>) i = taskFilter A c i"
  by (simp add: taskFilter_def)

lemma broadcastFiltered_forEach_subscriptions:
  "broadcastFiltered_forEach fr (taskFilter A)
      (map (\<lambda>p. (fst p, (snd p)\<lparr>subscriptions := s p\<rparr>)) reg) n
   = broadcastFiltered_forEach fr (taskFilter A) reg n"
proof (induction reg arbitrary: n)
  case Nil
  then show ?case by simp
next
  case (Cons p reg)
  obtain i c where p: "p = (i, c)" by (cases p)
  show ?case unfolding p by (simp add: Cons.IH socket_send_def)
qed

lemma takeWhile_all: "list_all P xs \<Longrightarrow> takeWhile P xs = xs \<and> dropWhile P xs = []"
  by (induction xs) auto

lemma broadcastFiltered_forEach_events_eligible:
  "(i, e) \<in> set (fst (broadcastFiltered_forEach fr f reg n))
    \<Longrightarrow> \<exists>c. (i, c) \<in> set reg \<and> eligible f (i, c)"
proof (induction reg arbitrary: n)
  case Nil
  then show ?case by simp
next
  case (Cons p reg)
  obtain j c where p: "p = (j, c)" by (cases p)
  show ?case
  proof (cases "eligible f (j, c)")
    case False
    then have "broadcastFiltered_forEach fr f (p # reg) n = broadcastFiltered_forEach fr f reg n"
      unfolding p by (auto simp: eligible_def)
    with Cons show ?thesis by fastforce
  next
    case True
    then have el: "f c j \<and> readyState (socket c) = 1" by (simp add: eligible_def)
    show ?thesis
    proof (cases "i = j")
      case True
      with \<open>eligible f (j, c)\<close> show ?thesis unfolding p by (intro exI [of _ c]) simp
    next
      case False
      with el Cons.prems have "(i, e) \<in> set (fst (broadcastFiltered_forEach fr f reg (n + 1)))"
        unfolding p by (auto simp: socket_send_def split: if_splits prod.splits)
      from Cons.IH [OF this] show ?thesis by auto
    qed
  qed
qed

text \<open>
  C1, as the code has it. A task event of user \<open>A\<close> is dispatched with \<open>taskFilter A\<close>.
  Whenever the call returns a count, the sockets written to are exactly the registered
  connections whose user id is \<open>A\<close> and whose socket is OPEN, each once and in registry
  order, and the count is the number of writes. The call returns a count whenever no
  \<open>send\<close> on such a connection raises. In every call, also one that a raising \<open>send\<close>
  ends, no socket of another user and no socket that is not OPEN is touched. The
  subscription flags play no part: replacing them in any way leaves the outcome the same.
\<close>

theorem broadcastFiltered_task_scoping:
  "(\<forall>n. snd (broadcastFiltered m (taskFilter A) reg) = Inr n \<longrightarrow>
       fst (broadcastFiltered m (taskFilter A) reg) =
         map (\<lambda>p. (fst p, Sent (serialize m)))
           (filter (\<lambda>p. map_option id_user (user (snd p)) = Some A
                        \<and> readyState (socket (snd p)) = 1) reg)
     \<and> n = length (fst (broadcastFiltered m (taskFilter A) reg)))
   \<and> ((\<forall>p \<in> set reg. map_option id_user (user (snd p)) = Some A
                        \<and> readyState (socket (snd p)) = 1 \<longrightarrow> \<not> sendThrows (socket (snd p)))
        \<longrightarrow> (\<exists>n. snd (broadcastFiltered m (taskFilter A) reg) = Inr n))
   \<and> (\<forall>i e. (i, e) \<in> set (fst (broadcastFiltered m (taskFilter A) reg)) \<longrightarrow>
         (\<exists>c. (i, c) \<in> set reg \<and> map_option id_user (user c) = Some A
              \<and> readyState (socket c) = 1))
   \<and> broadcastFiltered m (taskFilter A)
        (map (\<lambda>p. (fst p, (snd p)\<lparr>subscriptions := s p\<rparr>)) reg)
      = broadcastFiltered m (taskFilter A) reg"
proof -
  define own where "own = (\<lambda>p::conn_id \<times> connection.
     map_option id_user (user (snd p)) = Some A \<and> readyState (socket (snd p)) = 1)"
  define r where "r = broadcastFiltered m (taskFilter A) reg"
  have el: "eligible (taskFilter A) = own"
    unfolding own_def by (rule ext) (simp only: eligible_taskFilter)
  have r: "r = (map (\<lambda>p. (fst p, Sent (serialize m))) (takeWhile send_returns (filter own reg))
        @ (case dropWhile send_returns (filter own reg) of
             [] \<Rightarrow> [] | p # _ \<Rightarrow> [(fst p, SendRaised (serialize m))]),
      if list_all send_returns (filter own reg)
      then Inr (length (filter own reg)) else Inl SendError)"
    unfolding r_def broadcastFiltered_def broadcastFiltered_forEach_char el by simp
  have returned: "fst r = map (\<lambda>p. (fst p, Sent (serialize m))) (filter own reg)
       \<and> n = length (fst r)"
    if "snd r = Inr n" for n
  proof -
    from that have all: "list_all send_returns (filter own reg)"
      and n: "n = length (filter own reg)"
      unfolding r by (simp_all split: if_splits)
    from takeWhile_all [OF all]
    have tw: "takeWhile send_returns (filter own reg) = filter own reg"
      and dw: "dropWhile send_returns (filter own reg) = []" by blast+
    show ?thesis unfolding r by (simp only: fst_conv tw dw n) simp
  qed
  have returns: "\<exists>n. snd r = Inr n"
    if "\<forall>p \<in> set reg. own p \<longrightarrow> \<not> sendThrows (socket (snd p))"
  proof -
    from that have "list_all send_returns (filter own reg)"
      by (simp add: list_all_iff send_returns_def)
    then show ?thesis unfolding r by simp
  qed
  have scoped: "\<exists>c. (i, c) \<in> set reg \<and> own (i, c)"
    if "(i, e) \<in> set (fst r)" for i e
    using broadcastFiltered_forEach_events_eligible [of i e "serialize m" "taskFilter A" reg 0] that
    unfolding r_def broadcastFiltered_def el by simp
  have subs: "broadcastFiltered m (taskFilter A)
        (map (\<lambda>p. (fst p, (snd p)\<lparr>subscriptions := s p\<rparr>)) reg) = r"
    unfolding r_def by (simp add: broadcastFiltered_def broadcastFiltered_forEach_subscriptions)
  from returned returns scoped subs show ?thesis
    unfolding r_def own_def by (simp only: fst_conv snd_conv) blast
qed

theorem broadcastFiltered_task_scoping_witness:
  "broadcastFiltered (taskUpdatedMessage (JObj [(''id'', JStr ''t1'')])) (taskFilter ''A'')
     sample_registry
   = ([(''user:A:1'', Sent (Stringified (JObj [(''type'', JStr ''TASK_UPDATED''),
                                               (''task'', JObj [(''id'', JStr ''t1'')])]))),
       (''user:A:3'', Sent (Stringified (JObj [(''type'', JStr ''TASK_UPDATED''),
                                               (''task'', JObj [(''id'', JStr ''t1'')])]))),
       (''user:A:5'', Sent (Stringified (JObj [(''type'', JStr ''TASK_UPDATED''),
                                               (''task'', JObj [(''id'', JStr ''t1'')])])))],
      Inr 3)"
proof -
  let ?m = "taskUpdatedMessage (JObj [(''id'', JStr ''t1'')])"
  let ?f = "Stringified (JObj [(''type'', JStr ''TASK_UPDATED''),
                               (''task'', JObj [(''id'', JStr ''t1'')])])"
  let ?r = "broadcastFiltered ?m (taskFilter ''A'') sample_registry"
  have frame: "serialize ?m = ?f"
    by (simp add: serialize_def taskUpdatedMessage_def)
  note scoping = broadcastFiltered_task_scoping [of ?m "''A''" sample_registry]
  have "\<forall>p \<in> set sample_registry. map_option id_user (user (snd p)) = Some ''A''
          \<and> readyState (socket (snd p)) = 1 \<longrightarrow> \<not> sendThrows (socket (snd p))"
    by (simp add: sample_registry_def sample_connection_def sample_socket_def)
  with scoping obtain n where n: "snd ?r = Inr n" by blast
  with scoping have "fst ?r = map (\<lambda>p. (fst p, Sent (serialize ?m)))
           (filter (\<lambda>p. map_option id_user (user (snd p)) = Some ''A''
                        \<and> readyState (socket (snd p)) = 1) sample_registry)"
    and "n = length (fst ?r)" by blast+
  then have "fst ?r = [(''user:A:1'', Sent ?f), (''user:A:3'', Sent ?f), (''user:A:5'', Sent ?f)]"
    and "n = 3"
    unfolding frame
    by (simp_all add: sample_registry_def sample_connection_def sample_socket_def sample_user_def)
  with n show ?thesis by (simp add: prod_eq_iff)
qed

text \<open>
  C1 as the spec states it, for every call, fails where a \<open>send\<close> raises. In
  \<open>partly_failing_registry\<close> user \<open>A\<close> has three OPEN connections and the \<open>send\<close> of the
  second raises: the third is registered, owned by \<open>A\<close> and OPEN, yet nothing is written
  to it, and the call returns no count.
\<close>

theorem broadcastFiltered_task_scoping_counterexample:
  "map_of partly_failing_registry ''user:A:5'' = Some (sample_connection ''A'' 1 False)
   \<and> map_option id_user (user (sample_connection ''A'' 1 False)) = Some ''A''
   \<and> readyState (socket (sample_connection ''A'' 1 False)) = 1
   \<and> broadcastFiltered (taskCreatedMessage (JObj [(''id'', JStr ''t1'')])) (taskFilter ''A'')
        partly_failing_registry
       = ([(''user:A:1'', Sent (Stringified (JObj [(''type'', JStr ''TASK_CREATED''),
                                                   (''task'', JObj [(''id'', JStr ''t1'')])]))),
           (''user:A:3'', SendRaised (Stringified (JObj [(''type'', JStr ''TASK_CREATED''),
                                                   (''task'', JObj [(''id'', JStr ''t1'')])])))],
          Inl SendError)"
  by (simp add: broadcastFiltered_def partly_failing_registry_def sample_connection_def
      sample_socket_def sample_user_def taskFilter_def socket_send_def serialize_def
      taskCreatedMessage_def)

text \<open>
  C2, as the code has it. Neither \<open>broadcastFiltered\<close> nor \<open>broadcast\<close> catches an error
  of \<open>send\<close>. A raising \<open>send\<close> ends the loop at that connection: the eligible
  connections before it in registry order have been written to, no later one is attempted,
  and the caller gets the error in place of a count. When no \<open>send\<close> raises every
  eligible connection is written to.
\<close>

theorem broadcastFiltered_stops_at_first_failed_send:
  "broadcastFiltered m f reg =
     (map (\<lambda>p. (fst p, Sent (serialize m))) (takeWhile send_returns (filter (eligible f) reg))
        @ (case dropWhile send_returns (filter (eligible f) reg) of
             [] \<Rightarrow> [] | p # _ \<Rightarrow> [(fst p, SendRaised (serialize m))]),
      if list_all send_returns (filter (eligible f) reg)
      then Inr (length (filter (eligible f) reg)) else Inl SendError)
   \<and> broadcast m x reg =
     (map (\<lambda>p. (fst p, Sent (serialize m)))
        (takeWhile send_returns (filter (eligible (not_excluded x)) reg))
        @ (case dropWhile send_returns (filter (eligible (not_excluded x)) reg) of
             [] \<Rightarrow> [] | p # _ \<Rightarrow> [(fst p, SendRaised (serialize m))]),
      if list_all send_returns (filter (eligible (not_excluded x)) reg)
      then Inr (length (filter (eligible (not_excluded x)) reg)) else Inl SendError)"
  by (simp add: broadcastFiltered_def broadcast_def broadcastFiltered_forEach_char)

theorem broadcastFiltered_stops_at_first_failed_send_witness:
  "broadcastFiltered (taskDeletedMessage ''t1'') (taskFilter ''A'') (rev failing_registry)
     = ([(''user:A:3'', Sent (serialize (taskDeletedMessage ''t1''))),
         (''user:A:1'', SendRaised (serialize (taskDeletedMessage ''t1'')))], Inl SendError)"
  unfolding broadcastFiltered_stops_at_first_failed_send [THEN conjunct1]
  by (simp add: failing_registry_def sample_connection_def sample_socket_def sample_user_def
      eligible_def send_returns_def taskFilter_def)

text \<open>
  C2 as the spec states it fails. In \<open>failing_registry\<close> two OPEN connections of user
  \<open>A\<close> are registered; the \<open>send\<close> of the first raises. The second passes the filter and
  its \<open>send\<close> would return, yet the dispatch ends with the error and the second socket is
  never touched.
\<close>

theorem broadcastFiltered_failed_send_counterexample:
  "taskFilter ''A'' (sample_connection ''A'' 1 False) ''user:A:3''
   \<and> readyState (socket (sample_connection ''A'' 1 False)) = 1
   \<and> map_of failing_registry ''user:A:3'' = Some (sample_connection ''A'' 1 False)
   \<and> broadcastFiltered (taskDeletedMessage ''t1'') (taskFilter ''A'') failing_registry
       = ([(''user:A:1'', SendRaised (serialize (taskDeletedMessage ''t1'')))], Inl SendError)"
  by (simp add: broadcastFiltered_def failing_registry_def sample_connection_def
      sample_socket_def sample_user_def taskFilter_def socket_send_def)

section \<open>Liveness monitor\<close>

text \<open>
  One tick in which no \<open>ping\<close> raises, as a whole: a probe for every entry whose socket is
  OPEN, in registry order, and the registry without the entries whose \<open>readyState\<close> is 2
  or more.
\<close>

lemma pingInterval_forEach_char:
  assumes "\<forall>p \<in> set xs. readyState (socket (snd p)) = 1 \<longrightarrow> \<not> pingThrows (socket (snd p))"
  shows "pingInterval_forEach xs reg =
     (map (\<lambda>p. (fst p, Pinged)) (filter (\<lambda>p. readyState (socket (snd p)) = 1) xs),
      filter (\<lambda>q. fst q \<notin> fst ` {p \<in> set xs. 2 \<le> readyState (socket (snd p))}) reg,
      Inr ())"
  using assms
proof (induction xs arbitrary: reg)
  case Nil
  then show ?case by simp
next
  case (Cons p xs)
  obtain i c where p: "p = (i, c)" by (cases p)
  from Cons.prems have rest:
    "\<forall>p \<in> set xs. readyState (socket (snd p)) = 1 \<longrightarrow> \<not> pingThrows (socket (snd p))"
    by simp
  note IH = Cons.IH [OF rest]
  have del: "filter (\<lambda>q. fst q \<notin> fst ` {p \<in> set xs. 2 \<le> readyState (socket (snd p))})
               (AList.delete i reg)
           = filter (\<lambda>q. fst q \<notin> insert i (fst ` {p \<in> set xs. 2 \<le> readyState (socket (snd p))}))
               reg"
    by (induction reg) auto
  consider (opened) "readyState (socket c) = 1" | (closing) "2 \<le> readyState (socket c)"
    | (connecting) "readyState (socket c) = 0"
    by arith
  then show ?case
  proof cases
    case opened
    with Cons.prems have quiet: "\<not> pingThrows (socket c)" unfolding p by simp
    from opened have "{q \<in> set (p # xs). 2 \<le> readyState (socket (snd q))}
        = {q \<in> set xs. 2 \<le> readyState (socket (snd q))}"
      unfolding p by auto
    with opened quiet show ?thesis unfolding p by (simp add: IH socket_ping_def)
  next
    case closing
    then have "{q \<in> set (p # xs). 2 \<le> readyState (socket (snd q))}
        = insert p {q \<in> set xs. 2 \<le> readyState (socket (snd q))}"
      unfolding p by auto
    with closing show ?thesis
      unfolding p by (simp add: IH removeConnection_def del)
  next
    case connecting
    then have "{q \<in> set (p # xs). 2 \<le> readyState (socket (snd q))}
        = {q \<in> set xs. 2 \<le> readyState (socket (snd q))}"
      unfolding p by auto
    with connecting show ?thesis unfolding p by (simp add: IH)
  qed
qed

lemma filter_keys_distinct:
  "distinct (map fst reg) \<Longrightarrow>
     filter (\<lambda>q. fst q \<notin> fst ` {p \<in> set reg. P p}) reg = filter (\<lambda>q. \<not> P q) reg"
proof (rule filter_cong [OF refl])
  fix q assume d: "distinct (map fst reg)" and q: "q \<in> set reg"
  have "fst q \<in> fst ` {p \<in> set reg. P p} \<longleftrightarrow> P q"
  proof
    assume "fst q \<in> fst ` {p \<in> set reg. P p}"
    then obtain p where p: "p \<in> set reg" "P p" "fst p = fst q" by auto
    with d q have "p = q" by (metis eq_key_imp_eq_value prod.collapse)
    with p show "P q" by simp
  next
    assume "P q" with q show "fst q \<in> fst ` {p \<in> set reg. P p}" by auto
  qed
  then show "(fst q \<notin> fst ` {p \<in> set reg. P p}) = (\<not> P q)" by simp
qed

lemma pingInterval_char:
  assumes "registry_ok reg"
    and "\<forall>p \<in> set reg. readyState (socket (snd p)) = 1 \<longrightarrow> \<not> pingThrows (socket (snd p))"
  shows "pingInterval reg =
     (map (\<lambda>p. (fst p, Pinged)) (filter (\<lambda>p. readyState (socket (snd p)) = 1) reg),
      filter (\<lambda>p. readyState (socket (snd p)) < 2) reg,
      Inr ())"
proof -
  have "filter (\<lambda>q. fst q \<notin> fst ` {p \<in> set reg. 2 \<le> readyState (socket (snd p))}) reg
      = filter (\<lambda>q. \<not> 2 \<le> readyState (socket (snd q))) reg"
    using assms(1) unfolding registry_ok_def by (rule filter_keys_distinct)
  then show ?thesis
    by (simp add: pingInterval_def pingInterval_forEach_char [OF assms(2)] not_le)
qed

lemma map_of_filter_distinct:
  "distinct (map fst reg) \<Longrightarrow> (i, c) \<in> set reg
    \<Longrightarrow> map_of (filter P reg) i = (if P (i, c) then Some c else None)"
proof (induction reg)
  case Nil
  then show ?case by simp
next
  case (Cons p reg)
  show ?case
  proof (cases "p = (i, c)")
    case True
    with Cons.prems have "i \<notin> fst ` set reg" by auto
    then have "map_of (filter P reg) i = None"
      by (auto simp: map_of_eq_None_iff)
    with True show ?thesis by simp
  next
    case False
    with Cons.prems have "fst p \<noteq> i" by (cases p) (auto simp: image_iff)
    with False Cons show ?thesis by (cases p) auto
  qed
qed

text \<open>
  C6, as the code has it. On a tick every registered connection with an OPEN socket gets a
  ping and stays registered, and every one whose socket is CLOSING or CLOSED is removed.
  The tick is not the only eviction: the \<open>close\<close> listener the route installs on the
  socket calls \<open>removeConnection(connectionId)\<close>, so a connection whose socket closes
  leaves the registry at once, and no other entry changes.
\<close>

text \<open>What admission leaves behind when it ends with an id.\<close>

lemma admit_completed:
  assumes "admit c now ts reg = (evs, reg', Inr cid)"
  shows "getConnection cid reg' = Some c"
proof (cases "user c")
  case None
  with assms show ?thesis by (simp add: admit_def)
next
  case (Some u)
  with assms have "cid = connectionId (id_user u) now"
    and "reg' = addConnection (connectionId (id_user u) now) c reg"
    by (auto simp: admit_def Let_def split: prod.splits sum.splits)
  then show ?thesis by (simp add: getConnection_def addConnection_def update_conv')
qed

text \<open>
  C6, as the code has it. On a tick in which no \<open>ping\<close> raises, every registered
  connection with an OPEN socket gets a ping and stays registered, every one whose socket
  is CLOSING or CLOSED is removed, and the tick ends without an error. The tick is not the
  only eviction: a connection whose admission ended with its listeners installed is
  registered under its id, and the \<open>close\<close> listener bound to that id calls
  \<open>removeConnection\<close>, so whatever the registry holds when the socket closes, the id is
  gone at once.
\<close>

theorem pingInterval_tick_and_close_listener:
  assumes "registry_ok reg"
    and "\<forall>p \<in> set reg. readyState (socket (snd p)) = 1 \<longrightarrow> \<not> pingThrows (socket (snd p))"
  shows "(\<forall>i c. (i, c) \<in> set reg \<longrightarrow>
            (readyState (socket c) = 1 \<longrightarrow>
               (i, Pinged) \<in> set (fst (pingInterval reg))
             \<and> getConnection i (fst (snd (pingInterval reg))) = Some c)
          \<and> (2 \<le> readyState (socket c) \<longrightarrow>
               (i, Pinged) \<notin> set (fst (pingInterval reg))
             \<and> getConnection i (fst (snd (pingInterval reg))) = None))
       \<and> snd (snd (pingInterval reg)) = Inr ()
       \<and> (\<forall>d now ts evs reg' r cid.
            admit d now ts reg = (evs, reg', r) \<and> r = Inr cid \<longrightarrow>
              getConnection cid reg' = Some d
            \<and> closeListener r = Some cid
            \<and> (\<forall>later. getConnection cid (socketCloseEvent (closeListener r) later) = None))"
proof -
  from assms(1) have d: "distinct (map fst reg)" by (simp add: registry_ok_def)
  note tick = pingInterval_char [OF assms]
  have opened: "(i, Pinged) \<in> set (fst (pingInterval reg))
             \<and> getConnection i (fst (snd (pingInterval reg))) = Some c"
    if "(i, c) \<in> set reg" "readyState (socket c) = 1" for i c
  proof -
    from that have "(i, c) \<in> set (filter (\<lambda>p. readyState (socket (snd p)) = 1) reg)"
      by simp
    then have "(i, Pinged) \<in> set (fst (pingInterval reg))"
      unfolding tick fst_conv set_map by (rule image_eqI [rotated]) simp
    moreover have "getConnection i (fst (snd (pingInterval reg))) = Some c"
      unfolding tick getConnection_def using map_of_filter_distinct [OF d that(1)] that(2)
      by simp
    ultimately show ?thesis by simp
  qed
  have closing: "(i, Pinged) \<notin> set (fst (pingInterval reg))
             \<and> getConnection i (fst (snd (pingInterval reg))) = None"
    if "(i, c) \<in> set reg" "2 \<le> readyState (socket c)" for i c
  proof -
    have "(i, Pinged) \<notin> set (fst (pingInterval reg))"
    proof
      assume "(i, Pinged) \<in> set (fst (pingInterval reg))"
      then obtain p where p: "p \<in> set reg" "readyState (socket (snd p)) = 1" "fst p = i"
        unfolding tick fst_conv set_map by auto
      then have "(i, snd p) \<in> set reg" by (metis prod.collapse)
      with d have "snd p = c" using that(1) by (rule eq_key_imp_eq_value)
      with p that(2) show False by simp
    qed
    moreover have "getConnection i (fst (snd (pingInterval reg))) = None"
      unfolding tick getConnection_def using map_of_filter_distinct [OF d that(1)] that(2)
      by simp
    ultimately show ?thesis by simp
  qed
  have ended: "snd (snd (pingInterval reg)) = Inr ()"
    unfolding tick by simp
  have gone: "getConnection cid (socketCloseEvent (closeListener (Inr cid)) later) = None"
    for cid later
    by (simp add: closeListener_def socketCloseEvent_def getConnection_def onSocketClose_def
        removeConnection_def delete_conv')
  show ?thesis
  proof (intro conjI allI impI)
    fix i c assume "(i, c) \<in> set reg" "readyState (socket c) = 1"
    from opened [OF this] show "(i, Pinged) \<in> set (fst (pingInterval reg))"
      and "getConnection i (fst (snd (pingInterval reg))) = Some c" by simp_all
  next
    fix i c assume "(i, c) \<in> set reg" "2 \<le> readyState (socket c)"
    from closing [OF this] show "(i, Pinged) \<notin> set (fst (pingInterval reg))"
      and "getConnection i (fst (snd (pingInterval reg))) = None" by simp_all
  next
    show "snd (snd (pingInterval reg)) = Inr ()" by (rule ended)
  next
    fix d' now ts evs reg' r cid
    assume "admit d' now ts reg = (evs, reg', r) \<and> r = Inr cid"
    then have "admit d' now ts reg = (evs, reg', Inr cid)" by simp
    then show "getConnection cid reg' = Some d'" by (rule admit_completed)
  next
    fix d' now ts evs reg' r cid
    assume "admit d' now ts reg = (evs, reg', r) \<and> r = Inr cid"
    then show "closeListener r = Some cid" by (simp add: closeListener_def)
  next
    fix d' now ts evs reg' r cid later
    assume "admit d' now ts reg = (evs, reg', r) \<and> r = Inr cid"
    then have "r = Inr cid" by simp
    then show "getConnection cid (socketCloseEvent (closeListener r) later) = None"
      using gone [of cid later] by simp
  qed
qed

theorem pingInterval_tick_and_close_listener_witness:
  "registry_ok sample_registry
   \<and> (''user:A:1'', Pinged) \<in> set (fst (pingInterval sample_registry))
   \<and> getConnection ''user:A:1'' (fst (snd (pingInterval sample_registry)))
       = Some (sample_connection ''A'' 1 False)
   \<and> (''user:A:6'', Pinged) \<notin> set (fst (pingInterval sample_registry))
   \<and> getConnection ''user:A:6'' (fst (snd (pingInterval sample_registry))) = None
   \<and> snd (snd (pingInterval sample_registry)) = Inr ()
   \<and> admit second_connection 7 ''2024-05-01T10:00:00.000Z'' sample_registry
       = ([Sent (Stringified (connectedFrame ''A'' ''2024-05-01T10:00:00.000Z''))],
          sample_registry @ [(''user:A:7'', second_connection)], Inr ''user:A:7'')
   \<and> getConnection ''user:A:7'' (sample_registry @ [(''user:A:7'', second_connection)])
       = Some second_connection
   \<and> getConnection ''user:A:7''
        (socketCloseEvent (closeListener (Inr ''user:A:7''))
           (sample_registry @ [(''user:A:7'', second_connection)])) = None"
proof -
  have ok: "registry_ok sample_registry"
    by (simp add: registry_ok_def sample_registry_def)
  have quiet: "\<forall>p \<in> set sample_registry.
      readyState (socket (snd p)) = 1 \<longrightarrow> \<not> pingThrows (socket (snd p))"
    by (simp add: sample_registry_def sample_connection_def sample_socket_def)
  have in1: "(''user:A:1'', sample_connection ''A'' 1 False) \<in> set sample_registry"
    and in6: "(''user:A:6'', sample_connection ''A'' 3 False) \<in> set sample_registry"
    by (simp_all add: sample_registry_def)
  have st1: "readyState (socket (sample_connection ''A'' 1 False)) = 1"
    and st6: "2 \<le> readyState (socket (sample_connection ''A'' 3 False))"
    by (simp_all add: sample_connection_def sample_socket_def)
  have adm: "admit second_connection 7 ''2024-05-01T10:00:00.000Z'' sample_registry
       = ([Sent (Stringified (connectedFrame ''A'' ''2024-05-01T10:00:00.000Z''))],
          sample_registry @ [(''user:A:7'', second_connection)], Inr ''user:A:7'')"
    by (simp add: admit_def reply_def socket_send_def addConnection_def connectionId_def
        Let_def decimal.simps digit_def second_connection_def sample_user_def
        sample_registry_def)
  note tick = pingInterval_tick_and_close_listener [OF ok quiet]
  note each = tick [THEN conjunct1, THEN spec, THEN spec, THEN mp]
  note opened = each [OF in1, THEN conjunct1, THEN mp, OF st1]
  note closed = each [OF in6, THEN conjunct2, THEN mp, OF st6]
  note ended = tick [THEN conjunct2, THEN conjunct1]
  have adm': "admit second_connection 7 ''2024-05-01T10:00:00.000Z'' sample_registry
       = ([Sent (Stringified (connectedFrame ''A'' ''2024-05-01T10:00:00.000Z''))],
          sample_registry @ [(''user:A:7'', second_connection)], Inr ''user:A:7'')
     \<and> (Inr ''user:A:7'' :: error + conn_id) = Inr ''user:A:7''"
    using adm by simp
  note listener = tick [THEN conjunct2, THEN conjunct2, THEN spec, THEN spec, THEN spec,
      THEN spec, THEN spec, THEN spec, THEN spec, THEN mp, OF adm']
  note registered = listener [THEN conjunct1]
  note evicted = listener [THEN conjunct2, THEN conjunct2, THEN spec,
      of "sample_registry @ [(''user:A:7'', second_connection)]"]
  from ok opened closed ended adm registered evicted show ?thesis
    by (intro conjI) (erule conjunct1 conjunct2 asm_rl)+
qed

text \<open>
  C6 as the spec states it fails in both sentences. In \<open>ping_failing_registry\<close> the
  \<open>ping\<close> of the first entry raises: the tick ends there with the error, and the second
  entry, whose socket is CLOSED, is still registered after the tick. And eviction does not
  wait for a tick: a connection is admitted under \<open>user:A:7\<close>; later its socket is
  CLOSED, and the \<open>close\<close> listener of that connection empties the registry with no tick
  in between.
\<close>

theorem close_listener_evicts_at_once_counterexample:
  "admit (sample_connection ''A'' 1 False) 7 ''2024-05-01T10:00:00.000Z'' []
     = ([Sent (Stringified (connectedFrame ''A'' ''2024-05-01T10:00:00.000Z''))],
        [(''user:A:7'', sample_connection ''A'' 1 False)], Inr ''user:A:7'')
   \<and> readyState (socket (sample_connection ''A'' 3 False)) = 3
   \<and> getConnection ''user:A:7'' [(''user:A:7'', sample_connection ''A'' 3 False)]
       = Some (sample_connection ''A'' 3 False)
   \<and> onSocketClose ''user:A:7'' [(''user:A:7'', sample_connection ''A'' 3 False)] = []
   \<and> socketCloseEvent (closeListener (Inr ''user:A:7''))
        [(''user:A:7'', sample_connection ''A'' 3 False)] = []
   \<and> pingInterval ping_failing_registry
       = ([(''user:A:1'', PingRaised)], ping_failing_registry, Inl PingError)
   \<and> getConnection ''user:A:6'' ping_failing_registry = Some (sample_connection ''A'' 3 False)"
  by (simp add: admit_def reply_def socket_send_def addConnection_def connectionId_def
      Let_def decimal.simps digit_def sample_connection_def sample_socket_def sample_user_def
      getConnection_def onSocketClose_def removeConnection_def socketCloseEvent_def
      closeListener_def pingInterval_def ping_failing_registry_def socket_ping_def)

section \<open>Shutdown\<close>

lemma onClose_forEach_char:
  "onClose_forEach reg =
     map (\<lambda>p. (fst p, if closeThrows (socket (snd p))
                      then CloseRaised 1000 ''Server shutting down''
                      else Closed 1000 ''Server shutting down'')) reg"
proof (induction reg)
  case Nil
  then show ?case by simp
next
  case (Cons p reg)
  then show ?case by (cases p) (simp add: socket_close_def)
qed

text \<open>
  C8. The \<open>onClose\<close> hook stops the timer, attempts \<open>close(1000, 'Server shutting down')\<close>
  on every registered connection in registry order, whether or not an earlier close raised,
  and leaves an empty registry: the count afterwards is zero. No error leaves the hook.
\<close>

theorem onClose_closes_all_and_clears:
  "onClose s =
     (map (\<lambda>p. (fst p, if closeThrows (socket (snd p))
                      then CloseRaised 1000 ''Server shutting down''
                      else Closed 1000 ''Server shutting down'')) (activeConnections s),
      s\<lparr>pingTimer := False, activeConnections := []\<rparr>)
   \<and> map fst (fst (onClose s)) = map fst (activeConnections s)
   \<and> pingTimer (snd (onClose s)) = False
   \<and> activeConnections (snd (onClose s)) = []
   \<and> getConnectionsCount (activeConnections (snd (onClose s))) = 0"
  by (simp add: onClose_def onClose_forEach_char Let_def getConnectionsCount_def comp_def)

theorem onClose_closes_all_and_clears_witness:
  "onClose \<lparr>activeConnections = failing_registry, pingTimer = True\<rparr> =
     ([(''user:A:1'', CloseRaised 1000 ''Server shutting down''),
       (''user:A:3'', Closed 1000 ''Server shutting down'')],
      \<lparr>activeConnections = [], pingTimer = False\<rparr>)"
  unfolding onClose_closes_all_and_clears [THEN conjunct1]
  by (simp add: failing_registry_def sample_connection_def sample_socket_def)

section \<open>Protocol handler\<close>

lemma reply_cases:
  "reply c j = (if sendThrows (socket c) then ([SendRaised (Stringified j)], Inl SendError)
                else ([Sent (Stringified j)], Inr ()))"
  by (simp add: reply_def socket_send_def)

lemma send_on_cases:
  "send_on s j = (if sendThrows s then ([SendRaised (Stringified j)], raised s, Inl SendError)
                  else ([Sent (Stringified j)], s, Inr ()))"
  by (simp add: send_on_def socket_send_def)

lemma onMessage_try_unsubscribe:
  assumes "map_of fs ''type'' = Some (JStr ''UNSUBSCRIBE_TASKS'')"
  shows "onMessage_try c (Parsed (JObj fs)) ts =
     (let c' = (case subscriptions c of
                  None \<Rightarrow> c
                | Some s \<Rightarrow> c\<lparr>subscriptions := Some (AList.update ''tasks'' False s)\<rparr>)
      in (fst (send_on (socket c) (unsubscribedFrame ts)), c',
          snd (send_on (socket c) (unsubscribedFrame ts))))"
  using assms
  by (cases "subscriptions c")
     (simp_all add: onMessage_try_def data_type_def Let_def split: prod.splits)

text \<open>
  C9, as the code has it. A frame whose \<open>type\<close> is \<open>UNSUBSCRIBE_TASKS\<close> leaves the tasks
  flag false on every connection. A connection that never subscribed is left as it was
  (its \<open>subscriptions\<close> stay undefined); where a \<open>subscriptions\<close> object exists its
  \<open>tasks\<close> key is kept and set to false. When the \<open>send\<close> of the confirmation returns,
  the one reply is the UNSUBSCRIBED frame for channel \<open>tasks\<close> and the listener ends
  without an error.
\<close>

theorem unsubscribe_tasks_confirms:
  assumes "map_of fs ''type'' = Some (JStr ''UNSUBSCRIBE_TASKS'')"
  shows "tasksFlag (fst (snd (onMessage c (Parsed (JObj fs)) ts ts'))) = False
     \<and> (subscriptions c = None \<longrightarrow>
           fst (snd (onMessage c (Parsed (JObj fs)) ts ts')) = c)
     \<and> (\<forall>s. subscriptions c = Some s \<longrightarrow>
           fst (snd (onMessage c (Parsed (JObj fs)) ts ts'))
             = c\<lparr>subscriptions := Some (AList.update ''tasks'' False s)\<rparr>
         \<and> map_of (AList.update ''tasks'' False s) ''tasks'' = Some False)
     \<and> (\<not> sendThrows (socket c) \<longrightarrow>
           fst (onMessage c (Parsed (JObj fs)) ts ts')
             = [Sent (Stringified (unsubscribedFrame ts))]
         \<and> snd (snd (onMessage c (Parsed (JObj fs)) ts ts')) = Inr ())
     \<and> frame_field (Stringified (unsubscribedFrame ts)) ''type'' = Some (JStr ''UNSUBSCRIBED'')
     \<and> frame_field (Stringified (unsubscribedFrame ts)) ''channel'' = Some (JStr ''tasks'')"
proof (cases "subscriptions c")
  case None
  then show ?thesis
    by (simp add: onMessage_def onMessage_try_unsubscribe [OF assms] send_on_cases tasksFlag_def
        unsubscribedFrame_def frame_field_def)
next
  case (Some s)
  then show ?thesis
    by (simp add: onMessage_def onMessage_try_unsubscribe [OF assms] send_on_cases tasksFlag_def
        unsubscribedFrame_def frame_field_def update_conv')
qed

theorem unsubscribe_tasks_confirms_witness:
  "map_of [(''type'', JStr ''UNSUBSCRIBE_TASKS'')] ''type'' = Some (JStr ''UNSUBSCRIBE_TASKS'')
   \<and> subscriptions (sample_connection ''A'' 1 False) = None
   \<and> sendThrows (socket (sample_connection ''A'' 1 False)) = False
   \<and> onMessage (sample_connection ''A'' 1 False)
         (Parsed (JObj [(''type'', JStr ''UNSUBSCRIBE_TASKS'')]))
         ''2024-05-01T10:00:00.000Z'' ''2024-05-01T10:00:00.001Z''
       = ([Sent (Stringified (unsubscribedFrame ''2024-05-01T10:00:00.000Z''))],
          sample_connection ''A'' 1 False, Inr ())
   \<and> tasksFlag (sample_connection ''A'' 1 False) = False"
proof -
  let ?c = "sample_connection ''A'' 1 False"
  let ?r = "onMessage ?c (Parsed (JObj [(''type'', JStr ''UNSUBSCRIBE_TASKS'')]))
         ''2024-05-01T10:00:00.000Z'' ''2024-05-01T10:00:00.001Z''"
  have ty: "map_of [(''type'', JStr ''UNSUBSCRIBE_TASKS'')] ''type''
      = Some (JStr ''UNSUBSCRIBE_TASKS'')" by simp
  have none: "subscriptions ?c = None" and ok: "sendThrows (socket ?c) = False"
    by (simp_all add: sample_connection_def sample_socket_def)
  note u = unsubscribe_tasks_confirms [OF ty, of ?c "''2024-05-01T10:00:00.000Z''"
      "''2024-05-01T10:00:00.001Z''"]
  from u none have c': "fst (snd ?r) = ?c" by simp
  from u ok have evs: "fst ?r = [Sent (Stringified (unsubscribedFrame ''2024-05-01T10:00:00.000Z''))]"
    and res: "snd (snd ?r) = Inr ()" by simp_all
  from u c' have flag: "tasksFlag ?c = False" by simp
  from c' evs res have "?r = ([Sent (Stringified (unsubscribedFrame ''2024-05-01T10:00:00.000Z''))],
          ?c, Inr ())" by (simp add: prod_eq_iff)
  with ty none ok flag show ?thesis by simp
qed

text \<open>
  C9 as the spec states it, for every connection, fails where the \<open>send\<close> of the
  confirmation raises: the error is caught by the listener's \<open>catch\<close>, which answers a
  well-formed \<open>UNSUBSCRIBE_TASKS\<close> frame with an ERROR frame. On
  \<open>recovering_connection\<close> the first \<open>send\<close> raises and the next one returns, so the
  only frame the client gets is that error.
\<close>

theorem unsubscribe_answered_with_error_counterexample:
  "onMessage recovering_connection (Parsed (JObj [(''type'', JStr ''UNSUBSCRIBE_TASKS'')]))
       ''2024-05-01T10:00:00.000Z'' ''2024-05-01T10:00:00.001Z''
     = ([SendRaised (Stringified (JObj [(''type'', JStr ''UNSUBSCRIBED''),
            (''channel'', JStr ''tasks''), (''timestamp'', JStr ''2024-05-01T10:00:00.000Z'')])),
         Sent (Stringified (JObj [(''type'', JStr ''ERROR''),
            (''error'', JStr ''Invalid message format''),
            (''timestamp'', JStr ''2024-05-01T10:00:00.001Z'')]))],
        recovering_connection, Inr ())"
  by (simp add: onMessage_def onMessage_try_def data_type_def send_on_def socket_send_def
      raised_def recovering_connection_def recovering_socket_def unsubscribedFrame_def
      errorFrame_def)

section \<open>Outbound frames\<close>

lemma timestamp_fields:
  "frame_field (Stringified (connectedFrame u ts)) ''timestamp'' = Some (JStr ts)"
  "frame_field (Stringified (pongFrame ts)) ''timestamp'' = Some (JStr ts)"
  "frame_field (Stringified (subscribedFrame ts)) ''timestamp'' = Some (JStr ts)"
  "frame_field (Stringified (unsubscribedFrame ts)) ''timestamp'' = Some (JStr ts)"
  "frame_field (Stringified (errorFrame msg ts)) ''timestamp'' = Some (JStr ts)"
  by (simp_all add: frame_field_def connectedFrame_def pongFrame_def subscribedFrame_def
      unsubscribedFrame_def errorFrame_def)

lemma reply_stamped:
  "frame_field (Stringified j) ''timestamp'' = Some (JStr ts)
    \<Longrightarrow> list_all (stamped ts) (fst (reply c j))"
  by (simp add: reply_cases stamped_def)

lemma send_on_stamped:
  "frame_field (Stringified j) ''timestamp'' = Some (JStr ts)
    \<Longrightarrow> list_all (stamped ts) (fst (send_on s j))"
  by (simp add: send_on_cases stamped_def)

lemma onMessage_try_stamped: "list_all (stamped ts) (fst (onMessage_try c raw ts))"
proof (cases raw)
  case Unparseable
  then show ?thesis by (simp add: onMessage_try_def)
next
  case (Parsed d)
  show ?thesis
  proof (cases "data_type d")
    case (Inl e)
    with Parsed show ?thesis by (simp add: onMessage_try_def)
  next
    case (Inr t)
    have each: "list_all (stamped ts)
        (fst (case send_on s j of (evs, s', r) \<Rightarrow> (evs, c' :: connection, s', r)))"
      if "frame_field (Stringified j) ''timestamp'' = Some (JStr ts)" for s j c'
      using send_on_stamped [OF that, of s] by (cases "send_on s j") simp
    from Parsed Inr show ?thesis
      by (simp add: onMessage_try_def Let_def each timestamp_fields)
  qed
qed

lemma list_all_mono: "list_all P xs \<Longrightarrow> (\<And>x. P x \<Longrightarrow> Q x) \<Longrightarrow> list_all Q xs"
  by (induction xs) auto

lemma onMessage_stamped:
  "list_all (\<lambda>e. stamped ts e \<or> stamped ts' e) (fst (onMessage c raw ts ts'))"
proof -
  obtain evs c' s' r where t: "onMessage_try c raw ts = (evs, c', s', r)"
    by (cases "onMessage_try c raw ts") auto
  from onMessage_try_stamped [of ts c raw] t have "list_all (stamped ts) evs" by simp
  then have 1: "list_all (\<lambda>e. stamped ts e \<or> stamped ts' e) evs"
    by (rule list_all_mono) simp
  have "list_all (stamped ts') (fst (send_on s' (errorFrame ''Invalid message format'' ts')))"
    by (rule send_on_stamped) (rule timestamp_fields)
  then have 2: "list_all (\<lambda>e. stamped ts e \<or> stamped ts' e)
      (fst (send_on s' (errorFrame ''Invalid message format'' ts')))"
    by (rule list_all_mono) simp
  show ?thesis
  proof (cases r)
    case (Inl e)
    with t 1 2 show ?thesis by (auto simp: onMessage_def split: prod.splits)
  next
    case (Inr u)
    with t 1 show ?thesis by (simp add: onMessage_def)
  qed
qed

lemma admit_stamped: "list_all (stamped ts) (fst (admit c now ts reg))"
proof (cases "user c")
  case None
  then show ?thesis by (simp add: admit_def)
next
  case (Some u)
  have "list_all (stamped ts) (fst (reply c (connectedFrame (id_user u) ts)))"
    by (rule reply_stamped) (rule timestamp_fields)
  with Some show ?thesis
    by (auto simp: admit_def Let_def split: prod.splits sum.splits)
qed

text \<open>
  C4, as the code has it. Every frame the route hands to \<open>send\<close> carries a \<open>timestamp\<close>
  field holding the clock's ISO string: CONNECTED at admission, and PONG, SUBSCRIBED,
  UNSUBSCRIBED and ERROR from the message listener. The task controller's messages are
  \<open>{type, task}\<close> for TASK_CREATED and TASK_UPDATED and \<open>{type, taskId}\<close> for
  TASK_DELETED: they have no \<open>timestamp\<close> field, and the dispatcher sends them as they are.
\<close>

theorem route_frames_carry_timestamp:
  "list_all (\<lambda>e. stamped ts e \<or> stamped ts' e) (fst (onMessage c raw ts ts'))
   \<and> list_all (stamped ts) (fst (admit c now ts reg))
   \<and> frame_field (Stringified (connectedFrame u ts)) ''timestamp'' = Some (JStr ts)
   \<and> frame_field (Stringified (pongFrame ts)) ''timestamp'' = Some (JStr ts)
   \<and> frame_field (Stringified (subscribedFrame ts)) ''timestamp'' = Some (JStr ts)
   \<and> frame_field (Stringified (unsubscribedFrame ts)) ''timestamp'' = Some (JStr ts)
   \<and> frame_field (Stringified (errorFrame msg ts)) ''timestamp'' = Some (JStr ts)
   \<and> frame_field (serialize (taskCreatedMessage task)) ''timestamp'' = None
   \<and> frame_field (serialize (taskUpdatedMessage task)) ''timestamp'' = None
   \<and> frame_field (serialize (taskDeletedMessage taskId)) ''timestamp'' = None"
  by (simp add: onMessage_stamped admit_stamped timestamp_fields)
     (simp add: frame_field_def serialize_def taskCreatedMessage_def taskUpdatedMessage_def
        taskDeletedMessage_def)

theorem route_frames_carry_timestamp_witness:
  "fst (onMessage (sample_connection ''A'' 1 False) (Parsed (JObj [(''type'', JStr ''PING'')]))
          ''2024-05-01T10:00:00.000Z'' ''2024-05-01T10:00:00.001Z'')
     = [Sent (Stringified (pongFrame ''2024-05-01T10:00:00.000Z''))]
   \<and> (stamped ''2024-05-01T10:00:00.000Z''
          (Sent (Stringified (pongFrame ''2024-05-01T10:00:00.000Z'')))
      \<or> stamped ''2024-05-01T10:00:00.001Z''
          (Sent (Stringified (pongFrame ''2024-05-01T10:00:00.000Z''))))"
proof -
  have ev: "fst (onMessage (sample_connection ''A'' 1 False)
          (Parsed (JObj [(''type'', JStr ''PING'')]))
          ''2024-05-01T10:00:00.000Z'' ''2024-05-01T10:00:00.001Z'')
     = [Sent (Stringified (pongFrame ''2024-05-01T10:00:00.000Z''))]"
    by (simp add: onMessage_def onMessage_try_def data_type_def send_on_cases
        sample_connection_def sample_socket_def)
  from route_frames_carry_timestamp
    [of "''2024-05-01T10:00:00.000Z''" "''2024-05-01T10:00:00.001Z''"
        "sample_connection ''A'' 1 False" "Parsed (JObj [(''type'', JStr ''PING'')])",
      THEN conjunct1]
  show ?thesis unfolding ev by simp
qed

text \<open>
  C4 as the spec states it fails for the task frames: the TASK_CREATED frame written to a
  connection of the owner has the fields \<open>type\<close> and \<open>task\<close> only.
\<close>

theorem task_frame_without_timestamp_counterexample:
  "broadcastFiltered (taskCreatedMessage (JObj [(''id'', JStr ''t1''), (''userId'', JStr ''A'')]))
      (taskFilter ''A'') [(''user:A:1'', sample_connection ''A'' 1 False)]
     = ([(''user:A:1'', Sent (Stringified (JObj [(''type'', JStr ''TASK_CREATED''),
            (''task'', JObj [(''id'', JStr ''t1''), (''userId'', JStr ''A'')])])))], Inr 1)
   \<and> frame_field (Stringified (JObj [(''type'', JStr ''TASK_CREATED''),
            (''task'', JObj [(''id'', JStr ''t1''), (''userId'', JStr ''A'')])])) ''timestamp''
       = None"
  by (simp add: broadcastFiltered_def taskCreatedMessage_def serialize_def taskFilter_def
      socket_send_def sample_connection_def sample_socket_def sample_user_def frame_field_def)

section \<open>Authenticator\<close>













section \<open>Connection ids\<close>

text \<open>
  The decimal rendering of a number has no colon and determines the number, so the id
  \<open>user:<userId>:<Date.now()>\<close> determines both the user id and the time.
\<close>

lemma lt10_cases:
  "d < (10::nat) \<Longrightarrow> d = 0 \<or> d = 1 \<or> d = 2 \<or> d = 3 \<or> d = 4 \<or> d = 5 \<or> d = 6 \<or> d = 7 \<or> d = 8 \<or> d = 9"
  by arith

lemma digit_not_colon: "d < 10 \<Longrightarrow> digit d \<noteq> CHR '':''"
  using lt10_cases [of d] by (auto simp: digit_def)

lemma digit_inj: "d < 10 \<Longrightarrow> e < 10 \<Longrightarrow> digit d = digit e \<Longrightarrow> d = e"
  using lt10_cases [of d] lt10_cases [of e] by (auto simp: digit_def)

lemma decimal_not_Nil: "decimal n \<noteq> []"
  by (subst decimal.simps) simp

lemma decimal_no_colon: "CHR '':'' \<notin> set (decimal n)"
proof (induction n rule: decimal.induct)
  case (1 n)
  show ?case
  proof (cases "n < 10")
    case True
    then show ?thesis by (subst decimal.simps) (simp add: digit_not_colon [THEN not_sym])
  next
    case False
    with 1 have "CHR '':'' \<notin> set (decimal (n div 10))" by simp
    moreover have "digit (n mod 10) \<noteq> CHR '':''" by (rule digit_not_colon) simp
    ultimately show ?thesis using False by (subst decimal.simps) (simp add: not_sym)
  qed
qed

lemma decimal_inj: "decimal n = decimal m \<Longrightarrow> n = m"
proof (induction n arbitrary: m rule: decimal.induct)
  case (1 n)
  show ?case
  proof (cases "n < 10")
    case small: True
    show ?thesis
    proof (cases "m < 10")
      case True
      with small 1(2) show ?thesis
        by (simp add: decimal.simps [of n] decimal.simps [of m] digit_inj)
    next
      case False
      with small 1(2) have "[digit n] = decimal (m div 10) @ [digit (m mod 10)]"
        by (simp add: decimal.simps [of n] decimal.simps [of m])
      then have "decimal (m div 10) = []" by simp
      with decimal_not_Nil show ?thesis by blast
    qed
  next
    case big: False
    show ?thesis
    proof (cases "m < 10")
      case True
      with big 1(2) have "decimal (n div 10) @ [digit (n mod 10)] = [digit m]"
        by (simp add: decimal.simps [of n] decimal.simps [of m])
      then have "decimal (n div 10) = []" by simp
      with decimal_not_Nil show ?thesis by blast
    next
      case False
      with big 1(2) have "decimal (n div 10) @ [digit (n mod 10)]
          = decimal (m div 10) @ [digit (m mod 10)]"
        by (simp add: decimal.simps [of n] decimal.simps [of m])
      then have q: "decimal (n div 10) = decimal (m div 10)"
        and r: "digit (n mod 10) = digit (m mod 10)" by simp_all
      from 1(1) [OF big q] have "n div 10 = m div 10" .
      moreover from r have "n mod 10 = m mod 10" by (rule digit_inj [rotated 2]) simp_all
      ultimately show ?thesis by (metis div_mult_mod_eq)
    qed
  qed
qed

lemma split_at_last:
  assumes "x \<notin> set d1" "x \<notin> set d2" "u1 @ x # d1 = u2 @ x # d2"
  shows "u1 = u2 \<and> d1 = d2"
proof -
  from assms(3) have "rev d1 @ x # rev u1 = rev d2 @ x # rev u2"
    by (metis rev_append rev.simps(2) append.assoc append_Cons append_Nil)
  moreover have "takeWhile (\<lambda>y. y \<noteq> x) (rev d1 @ x # rev u1) = rev d1"
    using assms(1) by (subst takeWhile_append2) auto
  moreover have "takeWhile (\<lambda>y. y \<noteq> x) (rev d2 @ x # rev u2) = rev d2"
    using assms(2) by (subst takeWhile_append2) auto
  ultimately have "rev d1 = rev d2" by simp
  then have "d1 = d2" by simp
  with assms(3) show ?thesis by simp
qed

lemma connectionId_inj:
  "connectionId u1 t1 = connectionId u2 t2 \<longleftrightarrow> u1 = u2 \<and> t1 = t2"
proof
  assume "connectionId u1 t1 = connectionId u2 t2"
  then have "u1 @ CHR '':'' # decimal t1 = u2 @ CHR '':'' # decimal t2"
    by (simp add: connectionId_def)
  from split_at_last [OF decimal_no_colon decimal_no_colon this]
  show "u1 = u2 \<and> t1 = t2" by (auto dest: decimal_inj)
qed simp


lemma length_update_value:
  "length (AList.update k v al) = length (AList.update k v' al)"
  by (induction al) auto

lemma admit_registry:
  "user c = Some u \<Longrightarrow>
     fst (snd (admit c now ts reg)) = addConnection (connectionId (id_user u) now) c reg"
  by (simp add: admit_def Let_def split: prod.splits sum.splits)

text \<open>
  Where the ids do their work: two admissions get the same id exactly when they have the
  same user id and the same clock reading. When the ids differ, both connections are
  registered after the second insert; when they coincide, the second connection takes the
  entry of the first and the count does not grow.
\<close>

lemma connectionId_collides_iff_same_user_and_millisecond:
  assumes "user c1 = Some usr1" "user c2 = Some usr2"
  shows "(connectionId (id_user usr1) t1 = connectionId (id_user usr2) t2
            \<longleftrightarrow> id_user usr1 = id_user usr2 \<and> t1 = t2)
       \<and> (id_user usr1 \<noteq> id_user usr2 \<or> t1 \<noteq> t2 \<longrightarrow>
            getConnection (connectionId (id_user usr1) t1)
              (fst (snd (admit c2 t2 ts2 (fst (snd (admit c1 t1 ts1 reg)))))) = Some c1
          \<and> getConnection (connectionId (id_user usr2) t2)
              (fst (snd (admit c2 t2 ts2 (fst (snd (admit c1 t1 ts1 reg)))))) = Some c2)
       \<and> (id_user usr1 = id_user usr2 \<and> t1 = t2 \<longrightarrow>
            getConnection (connectionId (id_user usr1) t1)
              (fst (snd (admit c2 t2 ts2 (fst (snd (admit c1 t1 ts1 reg)))))) = Some c2
          \<and> getConnectionsCount (fst (snd (admit c2 t2 ts2 (fst (snd (admit c1 t1 ts1 reg))))))
              = getConnectionsCount (fst (snd (admit c1 t1 ts1 reg))))"
proof -
  let ?i1 = "connectionId (id_user usr1) t1" and ?i2 = "connectionId (id_user usr2) t2"
  have r1: "fst (snd (admit c1 t1 ts1 reg)) = addConnection ?i1 c1 reg"
    using assms(1) by (rule admit_registry)
  have r2: "fst (snd (admit c2 t2 ts2 (addConnection ?i1 c1 reg)))
      = addConnection ?i2 c2 (addConnection ?i1 c1 reg)"
    using assms(2) by (rule admit_registry)
  have inj: "?i1 = ?i2 \<longleftrightarrow> id_user usr1 = id_user usr2 \<and> t1 = t2"
    by (rule connectionId_inj)
  have differ: "getConnection ?i1 (addConnection ?i2 c2 (addConnection ?i1 c1 reg)) = Some c1
      \<and> getConnection ?i2 (addConnection ?i2 c2 (addConnection ?i1 c1 reg)) = Some c2"
    if "id_user usr1 \<noteq> id_user usr2 \<or> t1 \<noteq> t2"
  proof -
    from that inj have "?i1 \<noteq> ?i2" by blast
    then show ?thesis by (simp add: getConnection_def addConnection_def update_conv')
  qed
  have same: "getConnection ?i1 (addConnection ?i2 c2 (addConnection ?i1 c1 reg)) = Some c2
      \<and> getConnectionsCount (addConnection ?i2 c2 (addConnection ?i1 c1 reg))
          = getConnectionsCount (addConnection ?i1 c1 reg)"
    if "id_user usr1 = id_user usr2 \<and> t1 = t2"
  proof -
    from that inj have eq: "?i2 = ?i1" by simp
    show ?thesis
      unfolding eq by (simp add: getConnection_def addConnection_def update_conv'
          getConnectionsCount_def length_update_value [of ?i1 c2 reg c1])
  qed
  from inj differ same show ?thesis unfolding r1 r2 by blast
qed


text \<open>
  C5 does not hold of the code. The id appends \<open>Date.now()\<close> to the user id to tell the
  connections of one user apart, and two connections of a user admitted within the same
  millisecond get the same id. Here two different connections of user \<open>A\<close> are admitted
  at the clock reading 7: both get \<open>user:A:7\<close>, the second insert displaces the first
  connection, which is live but no longer tracked, and when the socket of the first
  closes, its listener, bound to the shared id, removes the second from the registry.
\<close>

theorem same_millisecond_collision:
  "admit (sample_connection ''A'' 1 False) 7 ''2024-05-01T10:00:00.000Z'' []
     = ([Sent (Stringified (connectedFrame ''A'' ''2024-05-01T10:00:00.000Z''))],
        [(''user:A:7'', sample_connection ''A'' 1 False)], Inr ''user:A:7'')
   \<and> admit second_connection 7 ''2024-05-01T10:00:00.000Z''
         [(''user:A:7'', sample_connection ''A'' 1 False)]
     = ([Sent (Stringified (connectedFrame ''A'' ''2024-05-01T10:00:00.000Z''))],
        [(''user:A:7'', second_connection)], Inr ''user:A:7'')
   \<and> sample_connection ''A'' 1 False \<noteq> second_connection
   \<and> getConnection ''user:A:7'' [(''user:A:7'', second_connection)] = Some second_connection
   \<and> getConnectionsCount [(''user:A:7'', second_connection)] = 1
   \<and> socketCloseEvent (closeListener (Inr ''user:A:7'')) [(''user:A:7'', second_connection)]
       = []"
  by (simp add: admit_def reply_def socket_send_def addConnection_def connectionId_def
      Let_def decimal.simps digit_def sample_connection_def sample_socket_def sample_user_def
      second_connection_def getConnection_def getConnectionsCount_def socketCloseEvent_def
      closeListener_def onSocketClose_def removeConnection_def)

section \<open>Client reconnect policy\<close>

lemma handleClose_auth:
  "timers (handleClose 1008 reason st) = timers st"
  "reconnectTimeoutId (handleClose 1008 reason st) = reconnectTimeoutId st"
  "reconnectAttempts (handleClose 1008 reason st) = reconnectAttempts st"
  by (simp_all add: handleClose_def triggerEvent_def Let_def)

lemma handleClose_retry:
  assumes "code \<noteq> 1008" "reconnectAttempts st < 10"
  shows "timers (handleClose code reason st)
           = timers st @ [min (1000 * (3 / 2) ^ (reconnectAttempts st + 1)) 30000]"
    and "reconnectTimeoutId (handleClose code reason st)
           = Some (min (1000 * (3 / 2) ^ (reconnectAttempts st + 1)) 30000)"
    and "reconnectAttempts (handleClose code reason st) = reconnectAttempts st + 1"
  using assms
  by (simp_all add: handleClose_def scheduleReconnect_def getReconnectDelay_def
      maxReconnectAttempts_def triggerEvent_def Let_def)

lemma handleClose_exhausted:
  assumes "code \<noteq> 1008" "10 \<le> reconnectAttempts st"
  shows "timers (handleClose code reason st) = timers st"
    and "reconnectTimeoutId (handleClose code reason st) = reconnectTimeoutId st"
    and "reconnectAttempts (handleClose code reason st) = reconnectAttempts st"
  using assms
  by (simp_all add: handleClose_def scheduleReconnect_def maxReconnectAttempts_def
      triggerEvent_def Let_def)

lemma upt_step:
  assumes "a < (10::nat)"
  shows "[a + 1 ..< Suc (min (a + Suc k) 10)] = (a + 1) # [a + 2 ..< Suc (min (a + 1 + k) 10)]"
proof -
  from assms have "a + 1 < Suc (min (a + Suc k) 10)" by arith
  from upt_conv_Cons [OF this] have
    "[a + 1 ..< Suc (min (a + Suc k) 10)] = (a + 1) # [Suc (a + 1) ..< Suc (min (a + Suc k) 10)]" .
  moreover have "Suc (a + 1) = a + 2" "a + Suc k = a + 1 + k" by simp_all
  ultimately show ?thesis by (simp only:)
qed

lemma closes_timers:
  assumes "list_all (\<lambda>p. fst p \<noteq> 1008) cs" "reconnectAttempts st \<le> 10"
  shows "timers (closes cs st) =
           timers st @ map (\<lambda>n. min (1000 * (3 / 2) ^ n) 30000)
             [reconnectAttempts st + 1 ..< Suc (min (reconnectAttempts st + length cs) 10)]"
  using assms
proof (induction cs arbitrary: st)
  case Nil
  then show ?case by simp
next
  case (Cons p cs)
  obtain code reason where p: "p = (code, reason)" by (cases p)
  from Cons.prems p have code: "code \<noteq> 1008" and rest: "list_all (\<lambda>p. fst p \<noteq> 1008) cs"
    by simp_all
  show ?case
  proof (cases "reconnectAttempts st < 10")
    case True
    note step = handleClose_retry [OF code True, of reason]
    from True have le: "reconnectAttempts (handleClose code reason st) \<le> 10"
      by (simp add: step)
    have "[reconnectAttempts st + 1 ..< Suc (min (reconnectAttempts st + length (p # cs)) 10)]
        = (reconnectAttempts st + 1)
          # [reconnectAttempts st + 2 ..< Suc (min (reconnectAttempts st + 1 + length cs) 10)]"
      using upt_step [OF True, of "length cs"] by simp
    moreover from Cons.IH [OF rest le]
    have "timers (closes cs (handleClose code reason st)) =
        (timers st @ [min (1000 * (3 / 2) ^ (reconnectAttempts st + 1)) 30000])
        @ map (\<lambda>n. min (1000 * (3 / 2) ^ n) 30000)
            [reconnectAttempts st + 2 ..< Suc (min (reconnectAttempts st + 1 + length cs) 10)]"
      by (simp only: step) (simp only: add.assoc one_add_one)
    ultimately show ?thesis
      unfolding p by (simp only: closes.simps list.map append_assoc append_Cons append_Nil)
  next
    case False
    with Cons.prems have ten: "reconnectAttempts st = 10" by simp
    then have full: "10 \<le> reconnectAttempts st" by simp
    note step = handleClose_exhausted [OF code full, of reason]
    from ten have le: "reconnectAttempts (handleClose code reason st) \<le> 10"
      by (simp add: step)
    from Cons.IH [OF rest le] ten show ?thesis
      unfolding p by (simp add: step)
  qed
qed

lemma delay_capped: "min (1000 * (3 / 2) ^ 9) (30000::real) = 30000"
  by (simp add: power_divide)

text \<open>
  C10. A close with code 1008 starts no timer. Any other close, while fewer than ten
  attempts have been counted since the last successful open, counts attempt \<open>n\<close> (one more
  than before) and starts one timer of \<open>min(1000 * 1.5^n, 30000)\<close> milliseconds; once ten
  attempts are counted a close starts no timer. So a run of closes, none of them 1008 and
  none followed by an open, starts the timers for \<open>n = 1, 2, ...\<close> up to ten and no more.
\<close>

theorem reconnect_policy:
  "timers (handleClose 1008 reason st) = timers st
   \<and> reconnectTimeoutId (handleClose 1008 reason st) = reconnectTimeoutId st
   \<and> (code \<noteq> 1008 \<and> reconnectAttempts st < 10 \<longrightarrow>
        timers (handleClose code reason st)
          = timers st @ [min (1000 * (3 / 2) ^ (reconnectAttempts st + 1)) 30000]
      \<and> reconnectAttempts (handleClose code reason st) = reconnectAttempts st + 1)
   \<and> (code \<noteq> 1008 \<and> 10 \<le> reconnectAttempts st \<longrightarrow>
        timers (handleClose code reason st) = timers st
      \<and> reconnectAttempts (handleClose code reason st) = reconnectAttempts st)
   \<and> (list_all (\<lambda>p. fst p \<noteq> 1008) cs \<longrightarrow>
        timers (closes cs initial_client)
          = map (\<lambda>n. min (1000 * (3 / 2) ^ n) 30000) [1 ..< Suc (min (length cs) 10)])"
proof -
  have seq: "timers (closes cs initial_client)
          = map (\<lambda>n. min (1000 * (3 / 2) ^ n) 30000) [1 ..< Suc (min (length cs) 10)]"
    if "list_all (\<lambda>p. fst p \<noteq> 1008) cs"
  proof -
    have "reconnectAttempts initial_client \<le> 10" by (simp add: initial_client_def)
    from closes_timers [OF that this] show ?thesis by (simp add: initial_client_def)
  qed
  show ?thesis
    using handleClose_auth(1,2) [of reason st] handleClose_retry(1,3) [of code st reason]
      handleClose_exhausted(1,3) [of code st reason] seq
    by simp
qed

theorem reconnect_policy_witness:
  "timers (closes [(1006, ''lost''), (1006, ''lost''), (1006, ''lost'')] initial_client)
     = [1500, 2250, 3375]
   \<and> timers (handleClose 1006 ''lost'' (initial_client\<lparr>reconnectAttempts := 8\<rparr>)) = [30000]
   \<and> timers (handleClose 1006 ''lost'' (initial_client\<lparr>reconnectAttempts := 10\<rparr>)) = []
   \<and> timers (handleClose 1008 ''Invalid or expired session'' initial_client) = []"
proof -
  have three: "list_all (\<lambda>p. fst p \<noteq> (1008::nat))
      [(1006, ''lost''), (1006, ''lost''), (1006, ''lost'')]"
    by simp
  note seq = reconnect_policy [where cs = "[(1006, ''lost''), (1006, ''lost''), (1006, ''lost'')]",
      THEN conjunct2, THEN conjunct2, THEN conjunct2, THEN conjunct2, THEN mp, OF three]
  have 1: "timers (closes [(1006, ''lost''), (1006, ''lost''), (1006, ''lost'')] initial_client)
      = [1500, 2250, 3375]"
    unfolding seq by (simp add: upt_rec power3_eq_cube power2_eq_square)
  note eight = reconnect_policy [where code = 1006 and reason = "''lost''"
      and st = "initial_client\<lparr>reconnectAttempts := 8\<rparr>",
      THEN conjunct2, THEN conjunct2, THEN conjunct1]
  have 2: "timers (handleClose 1006 ''lost'' (initial_client\<lparr>reconnectAttempts := 8\<rparr>))
      = [30000]"
    using eight by (simp add: initial_client_def delay_capped)
  note ten = reconnect_policy [where code = 1006 and reason = "''lost''"
      and st = "initial_client\<lparr>reconnectAttempts := 10\<rparr>",
      THEN conjunct2, THEN conjunct2, THEN conjunct2, THEN conjunct1]
  have 3: "timers (handleClose 1006 ''lost'' (initial_client\<lparr>reconnectAttempts := 10\<rparr>)) = []"
    using ten by (simp add: initial_client_def)
  note auth = reconnect_policy [where reason = "''Invalid or expired session''"
      and st = initial_client, THEN conjunct1]
  have 4: "timers (handleClose 1008 ''Invalid or expired session'' initial_client) = []"
    using auth by (simp add: initial_client_def)
  from 1 2 3 4 show ?thesis by (intro conjI)
qed

end
